theory Spec2Isabelle
  imports Main "HOL-Library.Multiset"
begin

section \<open>The Todo model\<close>

text \<open>
  A Backbone model is a mutable object that views and the collection share by reference.
  A reference is the model's client id; the attributes it carries live in a heap that maps
  references to attribute records. The application only ever builds a Todo with an
  \<open>order\<close> (from \<open>newAttributes\<close>), so that attribute is a plain integer.
\<close>

type_synonym ref = nat

record todo =
  title :: string
  completed :: bool
  order :: int

type_synonym heap = "ref \<Rightarrow> todo"

text \<open>The attribute hash handed to the constructor: a key that is left out is \<open>None\<close>.\<close>

record attributes =
  attr_title :: "string option"
  attr_completed :: "bool option"
  attr_order :: int

text \<open>\<open>Todo.defaults()\<close>: the object \<open>{ title: '', completed: false }\<close>.\<close>

record todo_defaults =
  default_title :: string
  default_completed :: bool

definition defaults :: todo_defaults where
  "defaults = \<lparr>default_title = '''', default_completed = False\<rparr>"

text \<open>
  \<open>new Todo(attrs)\<close>: the framework's constructor fills every attribute that \<open>attrs\<close>
  leaves undefined from \<open>defaults()\<close>.
\<close>

definition Todo_new :: "attributes \<Rightarrow> todo" where
  "Todo_new a =
     \<lparr>title = (case attr_title a of Some v \<Rightarrow> v | None \<Rightarrow> default_title defaults),
      completed = (case attr_completed a of Some v \<Rightarrow> v | None \<Rightarrow> default_completed defaults),
      order = attr_order a\<rparr>"

text \<open>\<open>Todo.toggle()\<close>: \<open>this.save({ completed: !this.get('completed') })\<close> on the object \<open>r\<close>.\<close>

definition toggle :: "ref \<Rightarrow> heap \<Rightarrow> heap" where
  "toggle r h = h(r := (h r)\<lparr>completed := \<not> completed (h r)\<rparr>)"


section \<open>The TodoList collection\<close>

text \<open>
  The collection is the array \<open>models\<close> of references, read against the heap.
  \<open>filter\<close> is the list filter; \<open>without\<close> drops every element that is identical
  (\<open>===\<close>) to one of the values given, which for objects is equality of references.
\<close>

definition without :: "ref list \<Rightarrow> ref list \<Rightarrow> ref list" where
  "without ms vs = filter (\<lambda>r. r \<notin> set vs) ms"

definition completed_todos :: "heap \<Rightarrow> ref list \<Rightarrow> ref list" where
  "completed_todos h ms = filter (\<lambda>r. completed (h r)) ms"

definition remaining :: "heap \<Rightarrow> ref list \<Rightarrow> ref list" where
  "remaining h ms = without ms (completed_todos h ms)"

definition nextOrder :: "heap \<Rightarrow> ref list \<Rightarrow> int" where
  "nextOrder h ms = (if length ms = 0 then 1 else order (h (last ms)) + 1)"

definition comparator :: "heap \<Rightarrow> ref \<Rightarrow> int" where
  "comparator h r = order (h r)"

text \<open>
  Adding to a collection that has a comparator pushes the model and sorts the array by the
  comparator's value; the sort is stable. Removing a model splices out its first index.
\<close>

definition add_model :: "heap \<Rightarrow> ref \<Rightarrow> ref list \<Rightarrow> ref list" where
  "add_model h r ms = sort_key (comparator h) (ms @ [r])"

definition remove_model :: "ref \<Rightarrow> ref list \<Rightarrow> ref list" where
  "remove_model r ms = remove1 r ms"


section \<open>Strings\<close>

text \<open>
  \<open>String.prototype.trim\<close> strips white space and line terminators from both ends. A
  character here is a code unit below 256, where these are TAB, LF, VT, FF, CR, SPACE and
  the no-break space.
\<close>

definition is_space :: "char \<Rightarrow> bool" where
  "is_space c = (c \<in> set [CHR 0x09, CHR 0x0A, CHR 0x0B, CHR 0x0C, CHR 0x0D, CHR 0x20, CHR 0xA0])"

definition trim :: "string \<Rightarrow> string" where
  "trim s = rev (dropWhile is_space (rev (dropWhile is_space s)))"

text \<open>A string is truthy when it is not empty.\<close>

definition truthy :: "string \<Rightarrow> bool" where
  "truthy s = (s \<noteq> [])"

definition ENTER_KEY :: nat where
  "ENTER_KEY = 13"


section \<open>The application state\<close>

text \<open>
  The values that reach the router's handler and the filter: \<open>undefined\<close> (no argument),
  \<open>null\<close>, or a string. Strict equality \<open>===\<close> on them is equality of the datatype.
\<close>

datatype jsval = Undefined | Null | Str string

text \<open>
  What the handlers read and write: the heap of Todo objects, the collection's array, the
  counter that names the next object, \<open>TodoFilter.value\<close>, and the value of the
  \<open>#new-todo\<close> field.
\<close>

record app =
  objects :: heap
  models :: "ref list"
  next_ref :: ref
  filter_value :: jsval
  new_todo :: string

text \<open>\<open>model.save(attrs)\<close> sets the attributes on the object; \<open>model.destroy()\<close> makes
  the collection that holds the object remove it.\<close>

definition save_title :: "string \<Rightarrow> ref \<Rightarrow> app \<Rightarrow> app" where
  "save_title t r s = s\<lparr>objects := (objects s)(r := (objects s r)\<lparr>title := t\<rparr>)\<rparr>"

definition save_completed :: "bool \<Rightarrow> ref \<Rightarrow> app \<Rightarrow> app" where
  "save_completed c r s = s\<lparr>objects := (objects s)(r := (objects s r)\<lparr>completed := c\<rparr>)\<rparr>"

definition destroy :: "ref \<Rightarrow> app \<Rightarrow> app" where
  "destroy r s = s\<lparr>models := remove_model r (models s)\<rparr>"

text \<open>\<open>collection.create(attrs)\<close>: a new object built from \<open>attrs\<close> is added to the
  collection and saved.\<close>

definition create :: "attributes \<Rightarrow> app \<Rightarrow> app" where
  "create a s =
     (let r = next_ref s; h = (objects s)(r := Todo_new a)
      in s\<lparr>objects := h, models := add_model h r (models s), next_ref := Suc r\<rparr>)"


section \<open>The item view\<close>

text \<open>A TodoView holds its model, the value of its \<open>.edit\<close> field and whether its
  element carries the class \<open>editing\<close>.\<close>

record todo_view =
  model :: ref
  input_val :: string
  editing :: bool

definition isHidden :: "todo_view \<Rightarrow> app \<Rightarrow> bool" where
  "isHidden v s =
     (let isCompleted = completed (objects s (model v))
      in (\<not> isCompleted \<and> filter_value s = Str ''completed'') \<or>
         (isCompleted \<and> filter_value s = Str ''active''))"

definition toggleCompleted :: "todo_view \<Rightarrow> app \<Rightarrow> app" where
  "toggleCompleted v s = s\<lparr>objects := toggle (model v) (objects s)\<rparr>"

definition edit :: "todo_view \<Rightarrow> todo_view" where
  "edit v = v\<lparr>editing := True\<rparr>"

definition clear :: "todo_view \<Rightarrow> app \<Rightarrow> app" where
  "clear v s = destroy (model v) s"

definition close :: "todo_view \<Rightarrow> app \<Rightarrow> todo_view \<times> app" where
  "close v s =
     (let t = input_val v;
          s' = (if truthy t then save_title t (model v) s else clear v s)
      in (v\<lparr>editing := False\<rparr>, s'))"

definition updateOnEnter :: "nat \<Rightarrow> todo_view \<Rightarrow> app \<Rightarrow> todo_view \<times> app" where
  "updateOnEnter which v s = (if which = ENTER_KEY then close v s else (v, s))"


section \<open>The application view\<close>

definition newAttributes :: "app \<Rightarrow> attributes" where
  "newAttributes s =
     \<lparr>attr_title = Some (trim (new_todo s)),
      attr_completed = Some False,
      attr_order = nextOrder (objects s) (models s)\<rparr>"

definition createOnEnter :: "nat \<Rightarrow> app \<Rightarrow> app" where
  "createOnEnter which s =
     (if which \<noteq> ENTER_KEY \<or> \<not> truthy (trim (new_todo s)) then s
      else (create (newAttributes s) s)\<lparr>new_todo := ''''\<rparr>)"

text \<open>\<open>_.invoke(this.todos.completed(), 'destroy')\<close> destroys the elements of the list that
  \<open>completed()\<close> returned, one after the other; the handler returns \<open>false\<close>.\<close>

definition clearCompleted :: "app \<Rightarrow> bool \<times> app" where
  "clearCompleted s = (False, fold destroy (completed_todos (objects s) (models s)) s)"

text \<open>\<open>checked\<close> is the state of the \<open>#toggle-all\<close> box when the handler runs.\<close>

definition toggleAllComplete :: "bool \<Rightarrow> app \<Rightarrow> app" where
  "toggleAllComplete checked s = fold (save_completed checked) (models s) s"


section \<open>The router\<close>

text \<open>\<open>filter(param = '')\<close>: the default applies when the parameter is undefined, and to
  no other value; \<open>null\<close> is stored as it comes.\<close>

definition filter_route :: "jsval \<Rightarrow> app \<Rightarrow> app" where
  "filter_route param s =
     s\<lparr>filter_value := (case param of Undefined \<Rightarrow> Str '''' | p \<Rightarrow> p)\<rparr>"

text \<open>
  The route \<open>*filter\<close> matches every fragment of the address. The framework's router calls
  the handler with the text that the splat captured, and with \<open>null\<close> when that text is
  empty. The fragment here is that text, decoded.
\<close>

definition route_param :: "string \<Rightarrow> jsval" where
  "route_param fragment = (if fragment = [] then Null else Str fragment)"


section \<open>Runs of the application\<close>

text \<open>At startup the filter is \<open>''\<close> (the constructor of TodoFilter) and, with nothing
  saved yet, the collection is empty.\<close>

definition blank :: todo where
  "blank = \<lparr>title = '''', completed = False, order = 0\<rparr>"

definition init :: app where
  "init = \<lparr>objects = (\<lambda>_. blank), models = [], next_ref = 0, filter_value = Str '''',
           new_todo = ''''\<rparr>"

text \<open>The events of the page and the handler each one runs. A route carries the fragment
  of the address it was taken for.\<close>

datatype event =
    TypeNewTodo string
  | KeypressNewTodo nat
  | ClickClearCompleted
  | ClickToggleAll bool
  | ClickToggle todo_view
  | ClickDestroy todo_view
  | KeypressEdit nat todo_view
  | BlurEdit todo_view
  | Route string

fun step :: "event \<Rightarrow> app \<Rightarrow> app" where
  "step (TypeNewTodo t) s = s\<lparr>new_todo := t\<rparr>"
| "step (KeypressNewTodo which) s = createOnEnter which s"
| "step ClickClearCompleted s = snd (clearCompleted s)"
| "step (ClickToggleAll checked) s = toggleAllComplete checked s"
| "step (ClickToggle v) s = toggleCompleted v s"
| "step (ClickDestroy v) s = clear v s"
| "step (KeypressEdit which v) s = snd (updateOnEnter which v s)"
| "step (BlurEdit v) s = snd (close v s)"
| "step (Route fragment) s = filter_route (route_param fragment) s"

definition run :: "event list \<Rightarrow> app \<Rightarrow> app" where
  "run evs s = fold step evs s"

section \<open>The order invariant and the history of routes\<close>

text \<open>
  The state of a store that only new-item creation has filled: the comparator's values
  increase strictly along the array, and every object of the array was named before the
  counter reached its present value.
\<close>

definition order_inv :: "app \<Rightarrow> bool" where
  "order_inv s =
     (sorted_wrt (<) (map (comparator (objects s)) (models s)) \<and>
      list_all (\<lambda>r. r < next_ref s) (models s))"



section \<open>Auxiliary facts\<close>

subsection \<open>Lists\<close>

lemma last_Max: "sorted xs \<Longrightarrow> xs \<noteq> [] \<Longrightarrow> last xs = Max (set xs)"
proof (induction xs rule: rev_induct)
  case Nil
  then show ?case by simp
next
  case (snoc x xs)
  then have "\<forall>y\<in>set xs. y \<le> x" by (simp add: sorted_append)
  then have "Max (set (xs @ [x])) = x"
    by (intro Max_eqI) auto
  then show ?case by simp
qed

lemma strict_sorted_last_greatest:
  "sorted_wrt (<) (xs :: int list) \<Longrightarrow> x \<in> set xs \<Longrightarrow> x \<le> last xs"
proof (induction xs rule: rev_induct)
  case Nil
  then show ?case by simp
next
  case (snoc y ys)
  then show ?case by (auto simp: sorted_wrt_append)
qed

lemma fold_remove1_Cons: "x \<notin> set ys \<Longrightarrow> fold remove1 ys (x # xs) = x # fold remove1 ys xs"
  by (induction ys arbitrary: xs) auto

lemma fold_remove1_filter: "fold remove1 (filter P xs) xs = filter (\<lambda>x. \<not> P x) xs"
  by (induction xs) (simp_all add: fold_remove1_Cons)

lemma sorted_wrt_map_remove1:
  "sorted_wrt P (map f xs) \<Longrightarrow> sorted_wrt P (map f (remove1 x xs))"
  by (induction xs) (auto dest: notin_set_remove1)

lemma list_all_remove1: "list_all P xs \<Longrightarrow> list_all P (remove1 x xs)"
  by (induction xs) auto


subsection \<open>Loops over the collection\<close>

lemma fold_destroy: "fold destroy rs s = s\<lparr>models := fold remove1 rs (models s)\<rparr>"
  by (induction rs arbitrary: s) (simp_all add: destroy_def remove_model_def)


lemma mset_add_model: "mset (add_model h r ms) = mset ms + {#r#}"
  by (simp add: add_model_def)

lemma length_add_model: "length (add_model h r ms) = length ms + 1"
  by (simp add: add_model_def)

subsection \<open>The handlers keep the order invariant\<close>

lemma comparator_same_order:
  "(\<And>r. order (h' r) = order (h r)) \<Longrightarrow> comparator h' = comparator h"
  by (rule ext) (simp add: comparator_def)

lemma inv_destroy: "order_inv s \<Longrightarrow> order_inv (destroy r s)"
  by (simp add: order_inv_def destroy_def remove_model_def sorted_wrt_map_remove1
      list_all_remove1)

lemma inv_fold_destroy: "order_inv s \<Longrightarrow> order_inv (fold destroy rs s)"
  by (induction rs arbitrary: s) (simp_all add: inv_destroy)

lemma inv_save_title: "order_inv s \<Longrightarrow> order_inv (save_title t r s)"
proof -
  have "comparator (objects (save_title t r s)) = comparator (objects s)"
    by (rule comparator_same_order) (simp add: save_title_def)
  then show "order_inv s \<Longrightarrow> order_inv (save_title t r s)"
    by (simp add: order_inv_def) (simp add: save_title_def)
qed

lemma inv_save_completed: "order_inv s \<Longrightarrow> order_inv (save_completed c r s)"
proof -
  have "comparator (objects (save_completed c r s)) = comparator (objects s)"
    by (rule comparator_same_order) (simp add: save_completed_def)
  then show "order_inv s \<Longrightarrow> order_inv (save_completed c r s)"
    by (simp add: order_inv_def) (simp add: save_completed_def)
qed

lemma inv_fold_save_completed: "order_inv s \<Longrightarrow> order_inv (fold (save_completed c) rs s)"
  by (induction rs arbitrary: s) (simp_all add: inv_save_completed)

lemma inv_toggleCompleted: "order_inv s \<Longrightarrow> order_inv (toggleCompleted v s)"
proof -
  have "comparator (objects (toggleCompleted v s)) = comparator (objects s)"
    by (rule comparator_same_order) (simp add: toggleCompleted_def toggle_def)
  then show "order_inv s \<Longrightarrow> order_inv (toggleCompleted v s)"
    by (simp add: order_inv_def) (simp add: toggleCompleted_def)
qed

text \<open>With the invariant, the new object sorts behind every other: \<open>create\<close> appends.\<close>

lemma create_appends:
  assumes "order_inv s"
  shows "models (create (newAttributes s) s) = models s @ [next_ref s]"
    and "order_inv (create (newAttributes s) s)"
proof -
  let ?r = "next_ref s"
  let ?h = "(objects s)(?r := Todo_new (newAttributes s))"
  let ?ms = "models s"
  from assms have fresh: "?r \<notin> set ?ms"
    by (auto simp: order_inv_def list_all_iff)
  then have same: "map (comparator ?h) ?ms = map (comparator (objects s)) ?ms"
    by (auto simp: comparator_def)
  from assms have srt: "sorted_wrt (<) (map (comparator (objects s)) ?ms)"
    by (simp add: order_inv_def)
  have new: "comparator ?h ?r = nextOrder (objects s) ?ms"
    by (simp add: comparator_def Todo_new_def newAttributes_def)
  have above: "\<forall>x\<in>set (map (comparator (objects s)) ?ms). x < nextOrder (objects s) ?ms"
  proof
    fix x assume x: "x \<in> set (map (comparator (objects s)) ?ms)"
    then have ne: "?ms \<noteq> []" by auto
    from strict_sorted_last_greatest [OF srt x]
    have "x \<le> comparator (objects s) (last ?ms)" using ne by (simp add: last_map)
    then show "x < nextOrder (objects s) ?ms"
      using ne by (simp add: nextOrder_def comparator_def)
  qed
  have strict: "sorted_wrt (<) (map (comparator ?h) (?ms @ [?r]))"
    using srt above by (simp add: same new sorted_wrt_append)
  then have "sorted (map (comparator ?h) (?ms @ [?r]))"
    by (rule sorted_wrt_mono_rel [rotated]) simp
  then have "add_model ?h ?r ?ms = ?ms @ [?r]"
    unfolding add_model_def by (rule sort_key_id_if_sorted)
  then show m: "models (create (newAttributes s) s) = ?ms @ [?r]"
    by (simp add: create_def Let_def)
  have "list_all (\<lambda>r. r < Suc ?r) (?ms @ [?r])"
    using assms by (auto simp: order_inv_def list_all_iff)
  then show "order_inv (create (newAttributes s) s)"
    using strict m unfolding order_inv_def
    by (simp add: create_def Let_def)
qed

lemma inv_createOnEnter: "order_inv s \<Longrightarrow> order_inv (createOnEnter which s)"
  using create_appends(2) [of s]
  by (simp add: createOnEnter_def) (simp add: order_inv_def)

lemma inv_close: "order_inv s \<Longrightarrow> order_inv (snd (close v s))"
  by (simp add: close_def Let_def clear_def inv_destroy inv_save_title)

lemma inv_step: "order_inv s \<Longrightarrow> order_inv (step e s)"
proof (cases e)
  case (TypeNewTodo t)
  then show "order_inv s \<Longrightarrow> order_inv (step e s)" by (simp add: order_inv_def)
next
  case (Route p)
  then show "order_inv s \<Longrightarrow> order_inv (step e s)" by (simp add: order_inv_def filter_route_def)
qed (simp_all add: inv_createOnEnter clearCompleted_def inv_fold_destroy toggleAllComplete_def
      inv_fold_save_completed inv_toggleCompleted clear_def inv_destroy updateOnEnter_def
      inv_close)

lemma inv_run: "order_inv s \<Longrightarrow> order_inv (run evs s)"
  unfolding run_def by (induction evs arbitrary: s) (simp_all add: inv_step)

lemma inv_init: "order_inv init"
  by (simp add: order_inv_def init_def)

subsection \<open>What closing an edit does\<close>

text \<open>\<open>close\<close> decides on the value of the field as it stands: any non-empty value, blanks
  included, becomes the title and the store keeps its items; only the empty value removes
  the item.\<close>

lemma close_nonempty:
  "input_val v \<noteq> [] \<Longrightarrow>
     title (objects (snd (close v s)) (model v)) = input_val v \<and>
     models (snd (close v s)) = models s"
  by (simp add: close_def Let_def truthy_def save_title_def)

lemma close_empty:
  "input_val v = [] \<Longrightarrow>
     models (snd (close v s)) = remove1 (model v) (models s) \<and>
     objects (snd (close v s)) = objects s"
  by (simp add: close_def Let_def truthy_def clear_def destroy_def remove_model_def)

subsection \<open>Only a route changes the filter\<close>





text \<open>For the empty fragment the handler receives \<open>null\<close>, which the default of its
  parameter does not replace: the filter is then \<open>null\<close>, not the empty string.\<close>

lemma filter_value_empty_fragment: "filter_value (run [Route ''''] init) = Null"
  by (simp add: run_def filter_route_def route_param_def)


section \<open>The claims\<close>

text \<open>
  C1. Closing the edit of an item view with an input whose trimmed title is empty should
  delete the item. \<open>close\<close> tests the value of the field as it is, where
  \<open>createOnEnter\<close> trims: with one item in the store and the field holding two blanks,
  the trimmed title is empty, yet the item stays in the store and its title becomes the
  two blanks.
\<close>

theorem close_keeps_blank_title:
  "let s = run [TypeNewTodo ''a'', KeypressNewTodo 13] init;
       v = \<lparr>model = 0, input_val = ''  '', editing = True\<rparr>;
       s' = snd (close v s)
   in trim (input_val v) = [] \<and> models s = [0] \<and> title (objects s 0) = ''a'' \<and>
      models s' = [0] \<and> title (objects s' 0) = ''  ''"
  by (simp add: Let_def run_def createOnEnter_def ENTER_KEY_def truthy_def trim_def is_space_def
      create_def newAttributes_def add_model_def init_def close_def save_title_def Todo_new_def)




text \<open>
  C3. \<open>nextOrder\<close> returns 1 on the empty store; on a store whose items are sorted by
  order it returns the greatest order of the store plus one.
\<close>

theorem nextOrder_max:
  "nextOrder h [] = 1 \<and>
   (sorted (map (comparator h) ms) \<longrightarrow>
      nextOrder h ms = (if ms = [] then 1 else Max (set (map (comparator h) ms)) + 1))"
proof -
  have "last (map (comparator h) ms) = Max (set (map (comparator h) ms))"
    if "sorted (map (comparator h) ms)" "ms \<noteq> []"
    using that by (intro last_Max) auto
  then show ?thesis
    by (auto simp: nextOrder_def last_map comparator_def)
qed

theorem nextOrder_max_witness:
  "sorted (map (comparator (\<lambda>r. \<lparr>title = ''t'', completed = False, order = 2 * int r + 1\<rparr>))
     [0, 1, 2]) \<and>
   nextOrder (\<lambda>r. \<lparr>title = ''t'', completed = False, order = 2 * int r + 1\<rparr>) [0, 1, 2] = 6"
proof -
  let ?h = "\<lambda>r::nat. \<lparr>title = ''t'', completed = False, order = 2 * int r + 1\<rparr>"
  have h: "sorted (map (comparator ?h) [0, 1, 2])"
    by (simp add: comparator_def)
  from nextOrder_max [of ?h "[0, 1, 2]"] h
  have "nextOrder ?h [0, 1, 2] = Max (set (map (comparator ?h) [0, 1, 2])) + 1"
    by simp
  also have "\<dots> = 6" by (simp add: comparator_def)
  finally show ?thesis using h by simp
qed

text \<open>
  C4. \<open>completed()\<close> returns exactly the items of the store that are completed,
  \<open>remaining()\<close> exactly those that are not; the two results are disjoint, their union is
  the store, and together they hold every item as often as the store does.
\<close>

theorem completed_remaining_partition:
  "completed_todos h ms = filter (\<lambda>r. completed (h r)) ms \<and>
   remaining h ms = filter (\<lambda>r. \<not> completed (h r)) ms \<and>
   set (completed_todos h ms) \<inter> set (remaining h ms) = {} \<and>
   set (completed_todos h ms) \<union> set (remaining h ms) = set ms \<and>
   mset (completed_todos h ms) + mset (remaining h ms) = mset ms"
proof -
  have r: "remaining h ms = filter (\<lambda>r. \<not> completed (h r)) ms"
    unfolding remaining_def without_def completed_todos_def
    by (rule filter_cong) auto
  show ?thesis unfolding r by (auto simp: completed_todos_def)
qed

text \<open>
  C5. An item view is hidden exactly when its item is not completed and the filter is
  \<open>completed\<close>, or its item is completed and the filter is \<open>active\<close>; with any other
  filter, the empty and the unrecognized ones among them, the item is visible.
\<close>

theorem isHidden_cases:
  "isHidden v s =
     ((\<not> completed (objects s (model v)) \<and> filter_value s = Str ''completed'') \<or>
      (completed (objects s (model v)) \<and> filter_value s = Str ''active'')) \<and>
   (filter_value s \<noteq> Str ''active'' \<and> filter_value s \<noteq> Str ''completed'' \<longrightarrow>
      \<not> isHidden v s)"
  by (auto simp: isHidden_def Let_def)

theorem isHidden_cases_witness:
  "filter_value (filter_route (Str ''done'') init) \<noteq> Str ''active'' \<and>
   filter_value (filter_route (Str ''done'') init) \<noteq> Str ''completed'' \<and>
   \<not> isHidden \<lparr>model = 0, input_val = '''', editing = False\<rparr> (filter_route (Str ''done'') init)"
proof -
  let ?s = "filter_route (Str ''done'') init"
  have h: "filter_value ?s \<noteq> Str ''active'' \<and> filter_value ?s \<noteq> Str ''completed''"
    by (simp add: filter_route_def)
  from isHidden_cases [of "\<lparr>model = 0, input_val = '''', editing = False\<rparr>" ?s] h
  have "\<not> isHidden \<lparr>model = 0, input_val = '''', editing = False\<rparr> ?s"
    by blast
  with h show ?thesis by blast
qed

text \<open>
  C6. A key press in the new-item field changes nothing when the key is not Enter or the
  trimmed text is empty. On Enter with a non-empty trimmed text it creates one object whose
  title is the trimmed text, whose order is \<open>nextOrder()\<close> of the store and whose
  completed flag is false, adds it to the store, leaves every other object as it was, and
  clears the field.
\<close>

theorem createOnEnter_effect:
  "(which \<noteq> ENTER_KEY \<or> trim (new_todo s) = [] \<longrightarrow> createOnEnter which s = s) \<and>
   (trim (new_todo s) \<noteq> [] \<longrightarrow>
      objects (createOnEnter ENTER_KEY s) (next_ref s) =
        \<lparr>title = trim (new_todo s), completed = False,
         order = nextOrder (objects s) (models s)\<rparr> \<and>
      (\<forall>r. r \<noteq> next_ref s \<longrightarrow> objects (createOnEnter ENTER_KEY s) r = objects s r) \<and>
      mset (models (createOnEnter ENTER_KEY s)) = mset (models s) + {#next_ref s#} \<and>
      length (models (createOnEnter ENTER_KEY s)) = length (models s) + 1 \<and>
      new_todo (createOnEnter ENTER_KEY s) = '''' \<and>
      filter_value (createOnEnter ENTER_KEY s) = filter_value s)"
  by (simp add: createOnEnter_def truthy_def create_def Let_def newAttributes_def
      Todo_new_def mset_add_model length_add_model)

theorem createOnEnter_effect_witness:
  "trim (new_todo (init\<lparr>new_todo := '' ''\<rparr>)) = [] \<and>
   createOnEnter ENTER_KEY (init\<lparr>new_todo := '' ''\<rparr>) = init\<lparr>new_todo := '' ''\<rparr> \<and>
   trim (new_todo (init\<lparr>new_todo := '' milk ''\<rparr>)) \<noteq> [] \<and>
   objects (createOnEnter ENTER_KEY (init\<lparr>new_todo := '' milk ''\<rparr>)) 0 =
     \<lparr>title = ''milk'', completed = False, order = 1\<rparr> \<and>
   length (models (createOnEnter ENTER_KEY (init\<lparr>new_todo := '' milk ''\<rparr>))) = 1 \<and>
   new_todo (createOnEnter ENTER_KEY (init\<lparr>new_todo := '' milk ''\<rparr>)) = ''''"
proof -
  let ?a = "init\<lparr>new_todo := '' ''\<rparr>"
  let ?b = "init\<lparr>new_todo := '' milk ''\<rparr>"
  have ha: "trim (new_todo ?a) = []"
    by (simp add: trim_def is_space_def)
  have hb: "trim (new_todo ?b) = ''milk''"
    by (simp add: trim_def is_space_def)
  have nb: "next_ref ?b = 0" "models ?b = []"
    by (simp_all add: init_def)
  have ob: "nextOrder (objects ?b) [] = 1"
    by (simp add: nextOrder_def)
  from createOnEnter_effect [of ENTER_KEY ?a] ha
  have a: "createOnEnter ENTER_KEY ?a = ?a"
    by blast
  from createOnEnter_effect [of ENTER_KEY ?b] hb
  have b: "objects (createOnEnter ENTER_KEY ?b) (next_ref ?b) =
        \<lparr>title = trim (new_todo ?b), completed = False,
         order = nextOrder (objects ?b) (models ?b)\<rparr>"
      "length (models (createOnEnter ENTER_KEY ?b)) = length (models ?b) + 1"
      "new_todo (createOnEnter ENTER_KEY ?b) = ''''"
    by simp_all
  show ?thesis
    using a b ha unfolding hb nb ob by simp
qed

text \<open>
  C7. \<open>clearCompleted\<close> removes from the store exactly the items that are completed when
  it is called: the store becomes its items that are not completed, in their order, no
  object changes, and the items removed are those that \<open>completed()\<close> returned.
\<close>

theorem clearCompleted_effect:
  "fst (clearCompleted s) = False \<and>
   models (snd (clearCompleted s)) = filter (\<lambda>r. \<not> completed (objects s r)) (models s) \<and>
   objects (snd (clearCompleted s)) = objects s \<and>
   mset (models s) =
     mset (models (snd (clearCompleted s))) + mset (completed_todos (objects s) (models s))"
  by (simp add: clearCompleted_def fold_destroy completed_todos_def fold_remove1_filter)

text \<open>
  C8. In every state that a run of the application reaches from the empty store, the order
  values of the store increase strictly along it, so they are pairwise distinct. Every
  handler keeps the invariant, and with it a creation puts the new item last, its order
  above every other.
\<close>

theorem order_strictly_increasing:
  "sorted_wrt (<) (map (comparator (objects (run evs init))) (models (run evs init))) \<and>
   distinct (map (comparator (objects (run evs init))) (models (run evs init))) \<and>
   (order_inv s \<longrightarrow> order_inv (step e s)) \<and>
   (order_inv s \<and> truthy (trim (new_todo s)) \<longrightarrow>
      models (createOnEnter ENTER_KEY s) = models s @ [next_ref s] \<and>
      list_all (\<lambda>r. comparator (objects (createOnEnter ENTER_KEY s)) r
                    < comparator (objects (createOnEnter ENTER_KEY s)) (next_ref s))
        (models s))"
proof -
  have "order_inv (run evs init)"
    by (rule inv_run [OF inv_init])
  then have srt: "sorted_wrt (<) (map (comparator (objects (run evs init))) (models (run evs init)))"
    by (simp add: order_inv_def)
  then have dst: "distinct (map (comparator (objects (run evs init))) (models (run evs init)))"
    by (simp add: strict_sorted_iff)
  have cr: "models (createOnEnter ENTER_KEY s) = models s @ [next_ref s] \<and>
      list_all (\<lambda>r. comparator (objects (createOnEnter ENTER_KEY s)) r
                    < comparator (objects (createOnEnter ENTER_KEY s)) (next_ref s))
        (models s)"
    if inv: "order_inv s" and t: "truthy (trim (new_todo s))"
  proof -
    let ?s' = "createOnEnter ENTER_KEY s"
    have m: "models ?s' = models s @ [next_ref s]"
      using create_appends(1) [OF inv] t by (simp add: createOnEnter_def)
    have "order_inv ?s'" by (rule inv_createOnEnter [OF inv])
    then have "sorted_wrt (<) (map (comparator (objects ?s')) (models s @ [next_ref s]))"
      by (simp add: order_inv_def m)
    then have "list_all (\<lambda>r. comparator (objects ?s') r < comparator (objects ?s') (next_ref s))
        (models s)"
      by (simp add: sorted_wrt_append list_all_iff)
    with m show ?thesis by simp
  qed
  show ?thesis
    using srt dst cr inv_step [of s e] by blast
qed

theorem order_strictly_increasing_witness:
  "models (run [TypeNewTodo ''a'', KeypressNewTodo 13, TypeNewTodo ''b'', KeypressNewTodo 13,
                ClickToggle \<lparr>model = 0, input_val = ''a'', editing = False\<rparr>,
                TypeNewTodo ''c''] init) = [0, 1] \<and>
   map (comparator (objects (run [TypeNewTodo ''a'', KeypressNewTodo 13, TypeNewTodo ''b'',
                KeypressNewTodo 13,
                ClickToggle \<lparr>model = 0, input_val = ''a'', editing = False\<rparr>,
                TypeNewTodo ''c''] init))) [0, 1] = [1, 2] \<and>
   order_inv (run [TypeNewTodo ''a'', KeypressNewTodo 13, TypeNewTodo ''b'', KeypressNewTodo 13,
                ClickToggle \<lparr>model = 0, input_val = ''a'', editing = False\<rparr>,
                TypeNewTodo ''c''] init) \<and>
   models (step ClickClearCompleted
     (run [TypeNewTodo ''a'', KeypressNewTodo 13, TypeNewTodo ''b'', KeypressNewTodo 13,
                ClickToggle \<lparr>model = 0, input_val = ''a'', editing = False\<rparr>,
                TypeNewTodo ''c''] init)) = [1] \<and>
   order_inv (step ClickClearCompleted
     (run [TypeNewTodo ''a'', KeypressNewTodo 13, TypeNewTodo ''b'', KeypressNewTodo 13,
                ClickToggle \<lparr>model = 0, input_val = ''a'', editing = False\<rparr>,
                TypeNewTodo ''c''] init)) \<and>
   models (createOnEnter ENTER_KEY
     (run [TypeNewTodo ''a'', KeypressNewTodo 13, TypeNewTodo ''b'', KeypressNewTodo 13,
                ClickToggle \<lparr>model = 0, input_val = ''a'', editing = False\<rparr>,
                TypeNewTodo ''c''] init)) = [0, 1, 2] \<and>
   map (comparator (objects (createOnEnter ENTER_KEY
     (run [TypeNewTodo ''a'', KeypressNewTodo 13, TypeNewTodo ''b'', KeypressNewTodo 13,
                ClickToggle \<lparr>model = 0, input_val = ''a'', editing = False\<rparr>,
                TypeNewTodo ''c''] init)))) [0, 1, 2] = [1, 2, 3] \<and>
   list_all (\<lambda>r. comparator (objects (createOnEnter ENTER_KEY
     (run [TypeNewTodo ''a'', KeypressNewTodo 13, TypeNewTodo ''b'', KeypressNewTodo 13,
                ClickToggle \<lparr>model = 0, input_val = ''a'', editing = False\<rparr>,
                TypeNewTodo ''c''] init))) r
       < comparator (objects (createOnEnter ENTER_KEY
     (run [TypeNewTodo ''a'', KeypressNewTodo 13, TypeNewTodo ''b'', KeypressNewTodo 13,
                ClickToggle \<lparr>model = 0, input_val = ''a'', editing = False\<rparr>,
                TypeNewTodo ''c''] init))) 2) [0, 1]"
proof -
  let ?evs = "[TypeNewTodo ''a'', KeypressNewTodo 13, TypeNewTodo ''b'', KeypressNewTodo 13,
               ClickToggle \<lparr>model = 0, input_val = ''a'', editing = False\<rparr>,
               TypeNewTodo ''c'']"
  let ?s = "run ?evs init"
  note defs = run_def createOnEnter_def ENTER_KEY_def truthy_def trim_def is_space_def
    create_def newAttributes_def add_model_def init_def Todo_new_def nextOrder_def
    comparator_def toggleCompleted_def toggle_def Let_def
  have m: "models ?s = [0, 1]" by (simp add: defs)
  have n: "next_ref ?s = 2" by (simp add: defs)
  have w: "new_todo ?s = ''c''" by (simp add: defs)
  have o: "map (comparator (objects ?s)) [0, 1] = [1, 2]" by (simp add: defs)
  have c: "completed (objects ?s 0)" "\<not> completed (objects ?s 1)" by (simp_all add: defs)
  have i: "order_inv ?s"
    unfolding order_inv_def m n o by simp
  have t: "truthy (trim (new_todo ?s))"
    unfolding w by (simp add: truthy_def trim_def is_space_def)
  have cl: "models (step ClickClearCompleted ?s) = [1]"
    using c by (simp add: clearCompleted_def completed_todos_def destroy_def remove_model_def m)
  note th = order_strictly_increasing [of ?evs ?s ClickClearCompleted]
  from th i have a: "order_inv (step ClickClearCompleted ?s)" by blast
  from th i t have b: "models (createOnEnter ENTER_KEY ?s) = models ?s @ [next_ref ?s]"
    and l: "list_all (\<lambda>r. comparator (objects (createOnEnter ENTER_KEY ?s)) r
                    < comparator (objects (createOnEnter ENTER_KEY ?s)) (next_ref ?s))
        (models ?s)"
    by blast+
  have o': "map (comparator (objects (createOnEnter ENTER_KEY ?s))) [0, 1, 2] = [1, 2, 3]"
    by (simp add: defs)
  show ?thesis
    using m o i cl a b l o' unfolding m n by simp
qed

text \<open>
  C9. \<open>toggle\<close> sets the completed flag of its item to the negation of what it was and
  leaves title and order alone; applied twice it gives back the heap it started from.
\<close>

theorem toggle_involution:
  "completed (toggle r h r) = (\<not> completed (h r)) \<and>
   title (toggle r h r) = title (h r) \<and> order (toggle r h r) = order (h r) \<and>
   toggle r (toggle r h) = h"
  by (simp add: toggle_def)

text \<open>
  C10. A Todo built from attributes that leave out the title has the title \<open>''\<close>, and one
  built from attributes that leave out the completed flag is not completed.
\<close>

theorem Todo_new_defaults:
  "(attr_title a = None \<longrightarrow> title (Todo_new a) = '''') \<and>
   (attr_completed a = None \<longrightarrow> completed (Todo_new a) = False)"
  by (simp add: Todo_new_def defaults_def)

theorem Todo_new_defaults_witness:
  "attr_title \<lparr>attr_title = None, attr_completed = None, attr_order = 4\<rparr> = None \<and>
   attr_completed \<lparr>attr_title = None, attr_completed = None, attr_order = 4\<rparr> = None \<and>
   title (Todo_new \<lparr>attr_title = None, attr_completed = None, attr_order = 4\<rparr>) = '''' \<and>
   completed (Todo_new \<lparr>attr_title = None, attr_completed = None, attr_order = 4\<rparr>) = False"
proof -
  let ?a = "\<lparr>attr_title = None, attr_completed = None, attr_order = 4\<rparr>"
  have h: "attr_title ?a = None" "attr_completed ?a = None"
    by simp_all
  from Todo_new_defaults [of ?a] h
  have "title (Todo_new ?a) = ''''" and "completed (Todo_new ?a) = False"
    by blast+
  with h show ?thesis by blast
qed

end
